theory Spec2Isabelle
  imports Main
begin

section \<open>Values carried by messages\<close>

text \<open>
  The relay is \<^verbatim>\<open>server.js\<close>: five Socket.IO listeners registered per connection.
  A socket id is a string. A property of an inbound object is a JavaScript primitive;
  \<open>JUndefined\<close> is what reading a missing property gives. Numbers are the integral ones.
  Property values that are themselves arrays or objects are outside this model.
\<close>

type_synonym sid = string

datatype jsval = JUndefined | JNull | JBool bool | JNum int | JStr string

text \<open>The argument a listener receives: a primitive (\<open>Prim JUndefined\<close> when the
  client sent no argument at all) or an object, given by its own properties.\<close>

datatype payload = Prim jsval | Obj "(string \<times> jsval) list"

datatype error = TypeError

text \<open>JavaScript truthiness, as tested by \<^verbatim>\<open>!room || !username\<close>.\<close>

fun truthy :: "jsval \<Rightarrow> bool" where
  "truthy JUndefined = False"
| "truthy JNull = False"
| "truthy (JBool b) = b"
| "truthy (JNum n) = (n \<noteq> 0)"
| "truthy (JStr s) = (s \<noteq> [])"

definition get_prop :: "(string \<times> jsval) list \<Rightarrow> string \<Rightarrow> jsval" where
  "get_prop kvs k = (case map_of kvs k of None \<Rightarrow> JUndefined | Some v \<Rightarrow> v)"

text \<open>\<^verbatim>\<open>const { room, username } = data;\<close> (line 18). Destructuring \<^verbatim>\<open>undefined\<close> or
  \<^verbatim>\<open>null\<close> throws a TypeError; any other primitive has neither property.\<close>

fun destructure :: "payload \<Rightarrow> error + (jsval \<times> jsval)" where
  "destructure (Prim JUndefined) = Inl TypeError"
| "destructure (Prim JNull) = Inl TypeError"
| "destructure (Prim v) = Inr (JUndefined, JUndefined)"
| "destructure (Obj kvs) = Inr (get_prop kvs ''room'', get_prop kvs ''username'')"

text \<open>Outbound events with their payloads: \<^verbatim>\<open>user:joined {username, id}\<close>,
  \<^verbatim>\<open>room:info {room, userCount}\<close>, \<^verbatim>\<open>room:count {count}\<close>, and the three relayed ones.
  A delivery is one event written to one socket.\<close>

datatype event =
    UserJoined jsval sid
  | RoomInfo jsval nat
  | RoomCount nat
  | SoundStroke payload
  | SoundState payload
  | CanvasClear

type_synonym delivery = "sid \<times> event"

text \<open>
  Every outbound packet is encoded with \<^verbatim>\<open>JSON.stringify\<close> before it is written to a
  socket, and a receiver reads the decoded text. An argument that is \<^verbatim>\<open>undefined\<close> (the
  sender gave none) is written as \<^verbatim>\<open>null\<close>, and a property whose value is \<^verbatim>\<open>undefined\<close>
  is left out; every other value of this model is read back as it was. A payload that
  arrived over the wire is itself a JSON value, or absent.
\<close>

fun json_value :: "payload \<Rightarrow> bool" where
  "json_value (Prim v) = (v \<noteq> JUndefined)"
| "json_value (Obj kvs) = list_all (\<lambda>kv. snd kv \<noteq> JUndefined) kvs"

fun wire :: "payload \<Rightarrow> payload" where
  "wire (Prim JUndefined) = Prim JNull"
| "wire (Prim v) = Prim v"
| "wire (Obj kvs) = Obj (filter (\<lambda>kv. snd kv \<noteq> JUndefined) kvs)"

text \<open>The payloads of \<^verbatim>\<open>user:joined\<close>, \<^verbatim>\<open>room:info\<close> and \<^verbatim>\<open>room:count\<close> are objects built by
  the server; a property left out reads as \<^verbatim>\<open>undefined\<close> again, so they are read back
  unchanged.\<close>

fun encode :: "event \<Rightarrow> event" where
  "encode (SoundStroke d) = SoundStroke (wire d)"
| "encode (SoundState d) = SoundState (wire d)"
| "encode ev = ev"

section \<open>The transport's room registry\<close>

text \<open>
  The registry is the in-memory adapter of the transport: \<^verbatim>\<open>adapter.rooms\<close>, a Map from
  room to the Set of socket ids in it, and \<^verbatim>\<open>adapter.sids\<close>, a Map from socket id to the
  Set of its rooms. A JavaScript Set iterates in insertion order, so a Set is a list
  here, kept free of duplicates by \<open>set_add\<close>.
\<close>

record adapter =
  rooms :: "jsval \<Rightarrow> sid list option"
  sids :: "sid \<Rightarrow> jsval list option"

definition init :: adapter where
  "init = \<lparr> rooms = Map.empty, sids = Map.empty \<rparr>"

definition set_add :: "'a list \<Rightarrow> 'a \<Rightarrow> 'a list" where
  "set_add xs x = (if x \<in> set xs then xs else xs @ [x])"

text \<open>\<^verbatim>\<open>socket.rooms\<close>: \<^verbatim>\<open>adapter.socketRooms(id) || new Set()\<close>.\<close>

definition socket_rooms :: "adapter \<Rightarrow> sid \<Rightarrow> jsval list" where
  "socket_rooms s i = (case sids s i of None \<Rightarrow> [] | Some rs \<Rightarrow> rs)"

text \<open>The ids a broadcast finds in a room; an absent room is skipped.\<close>

definition members :: "adapter \<Rightarrow> jsval \<Rightarrow> sid list" where
  "members s r = (case rooms s r of None \<Rightarrow> [] | Some ms \<Rightarrow> ms)"

text \<open>\<^verbatim>\<open>socket.join(room)\<close>, that is \<^verbatim>\<open>adapter.addAll(id, {room})\<close>: both Sets are created
  on demand and \<^verbatim>\<open>add\<close> is idempotent.\<close>

definition addAll :: "adapter \<Rightarrow> sid \<Rightarrow> jsval \<Rightarrow> adapter" where
  "addAll s i r =
     s\<lparr> sids := (sids s)(i \<mapsto> set_add (socket_rooms s i) r),
        rooms := (rooms s)(r \<mapsto> set_add (members s r) i) \<rparr>"

text \<open>The adapter's \<^verbatim>\<open>_del(room, id)\<close>: the id is deleted from the room's Set, and a room
  left empty is deleted from the Map.\<close>

definition del_room :: "adapter \<Rightarrow> jsval \<Rightarrow> sid \<Rightarrow> adapter" where
  "del_room s r i =
     (case rooms s r of
        None \<Rightarrow> s
      | Some ms \<Rightarrow>
          (if removeAll i ms = [] then s\<lparr> rooms := (rooms s)(r := None) \<rparr>
           else s\<lparr> rooms := (rooms s)(r \<mapsto> removeAll i ms) \<rparr>))"

text \<open>\<^verbatim>\<open>adapter.delAll(id)\<close>, called by \<^verbatim>\<open>socket.leaveAll()\<close>.\<close>

definition delAll :: "adapter \<Rightarrow> sid \<Rightarrow> adapter" where
  "delAll s i =
     (case sids s i of
        None \<Rightarrow> s
      | Some rs \<Rightarrow>
          (let s' = fold (\<lambda>r t. del_room t r i) rs s
           in s'\<lparr> sids := (sids s')(i := None) \<rparr>))"

text \<open>A new connection is enrolled in the channel named after its own id
  (\<^verbatim>\<open>this.join(this.id)\<close>) before the connection listener runs.\<close>

definition connect :: "adapter \<Rightarrow> sid \<Rightarrow> adapter" where
  "connect s i = addAll s i (JStr i)"

text \<open>
  A broadcast to one room. The except rooms are resolved to the ids they hold, and the
  room's ids are visited in order, skipping the excepted ones and those without a
  connected socket (a socket is connected exactly while \<^verbatim>\<open>adapter.sids\<close> has its id).
\<close>

definition except_sids :: "adapter \<Rightarrow> jsval list \<Rightarrow> sid list" where
  "except_sids s ex = concat (map (members s) ex)"

definition apply_room :: "adapter \<Rightarrow> jsval \<Rightarrow> jsval list \<Rightarrow> sid list" where
  "apply_room s r ex =
     filter (\<lambda>i. i \<notin> set (except_sids s ex) \<and> sids s i \<noteq> None) (members s r)"

text \<open>\<^verbatim>\<open>socket.to(room).emit(ev)\<close>: the operator is built with the socket's own channel
  as its except room. \<^verbatim>\<open>io.to(room).emit(ev)\<close> has no except room.
  \<^verbatim>\<open>socket.emit(ev)\<close> writes to the socket itself. What is delivered is the encoded
  packet.\<close>

definition socket_to :: "adapter \<Rightarrow> sid \<Rightarrow> jsval \<Rightarrow> event \<Rightarrow> delivery list" where
  "socket_to s a r ev = map (\<lambda>i. (i, encode ev)) (apply_room s r [JStr a])"

definition io_to :: "adapter \<Rightarrow> jsval \<Rightarrow> event \<Rightarrow> delivery list" where
  "io_to s r ev = map (\<lambda>i. (i, encode ev)) (apply_room s r [])"

definition socket_emit :: "sid \<Rightarrow> event \<Rightarrow> delivery list" where
  "socket_emit a ev = [(a, encode ev)]"

section \<open>The listeners of server.js\<close>

text \<open>\<^verbatim>\<open>io.sockets.adapter.rooms.get(room)?.size || 0\<close> (lines 24 and 55): the optional
  chain gives \<^verbatim>\<open>undefined\<close> for an absent room, and \<^verbatim>\<open>||\<close> replaces \<^verbatim>\<open>undefined\<close> and
  \<open>0\<close> by \<open>0\<close>.\<close>

definition optional_size :: "sid list option \<Rightarrow> nat option" where
  "optional_size m = map_option length m"

definition or_zero :: "nat option \<Rightarrow> nat" where
  "or_zero v = (case v of None \<Rightarrow> 0 | Some n \<Rightarrow> (if n = 0 then 0 else n))"

definition roomSize :: "adapter \<Rightarrow> jsval \<Rightarrow> nat" where
  "roomSize s r = or_zero (optional_size (rooms s r))"

text \<open>\<^verbatim>\<open>Array.from(socket.rooms).filter(r => r !== socket.id)\<close> (lines 31, 38, 45, 53):
  the rooms of the socket other than its own channel, the spec's \<open>roomsOf\<close>.\<close>

definition real_rooms :: "adapter \<Rightarrow> sid \<Rightarrow> jsval list" where
  "real_rooms s a = filter (\<lambda>r. r \<noteq> JStr a) (socket_rooms s a)"

text \<open>The join listener (lines 17-28).\<close>

definition on_join :: "adapter \<Rightarrow> sid \<Rightarrow> payload \<Rightarrow> error + (adapter \<times> delivery list)" where
  "on_join s a data =
     (case destructure data of
        Inl e \<Rightarrow> Inl e
      | Inr (room, username) \<Rightarrow>
          (if \<not> truthy room \<or> \<not> truthy username then Inr (s, [])
           else
             (let s' = addAll s a room;
                  n = roomSize s' room
              in Inr (s',
                      socket_to s' a room (UserJoined username a)
                      @ socket_emit a (RoomInfo room n)
                      @ io_to s' room (RoomCount n)))))"

text \<open>The three relaying listeners (lines 30-49).\<close>

definition on_sound_stroke :: "adapter \<Rightarrow> sid \<Rightarrow> payload \<Rightarrow> adapter \<times> delivery list" where
  "on_sound_stroke s a data =
     (s, concat (map (\<lambda>room. socket_to s a room (SoundStroke data)) (real_rooms s a)))"

definition on_sound_state :: "adapter \<Rightarrow> sid \<Rightarrow> payload \<Rightarrow> adapter \<times> delivery list" where
  "on_sound_state s a data =
     (s, concat (map (\<lambda>room. socket_to s a room (SoundState data)) (real_rooms s a)))"

definition on_canvas_clear :: "adapter \<Rightarrow> sid \<Rightarrow> adapter \<times> delivery list" where
  "on_canvas_clear s a =
     (s, concat (map (\<lambda>room. socket_to s a room CanvasClear) (real_rooms s a)))"

text \<open>The disconnect listener (lines 51-58), as a function of the registry it reads.\<close>

definition on_disconnect :: "adapter \<Rightarrow> sid \<Rightarrow> adapter \<times> delivery list" where
  "on_disconnect s a =
     (s, concat (map (\<lambda>room. io_to s room (RoomCount (roomSize s room))) (real_rooms s a)))"

text \<open>
  Closing a socket. The transport first fires \<^verbatim>\<open>disconnecting\<close> (no listener here),
  then makes the socket leave all its rooms (\<^verbatim>\<open>leaveAll\<close>), and only then fires
  \<^verbatim>\<open>disconnect\<close>: the listener of line 51 reads the registry after the socket has left.
\<close>

definition onclose :: "adapter \<Rightarrow> sid \<Rightarrow> adapter \<times> delivery list" where
  "onclose s a = on_disconnect (delAll s a) a"

section \<open>Runs of the relay\<close>

text \<open>
  One input is one event of the transport; each listener runs to completion before the
  next. Ids are assigned fresh by the transport and events are dispatched only to the
  listeners of a connected socket. An exception thrown by a listener is not caught.
\<close>

datatype input =
    Connect sid
  | Join sid payload
  | Stroke sid payload
  | StateMsg sid payload
  | Clear sid
  | Disconnect sid

fun subject :: "input \<Rightarrow> sid" where
  "subject (Connect a) = a"
| "subject (Join a d) = a"
| "subject (Stroke a d) = a"
| "subject (StateMsg a d) = a"
| "subject (Clear a) = a"
| "subject (Disconnect a) = a"

fun dispatch :: "adapter \<Rightarrow> input \<Rightarrow> error + (adapter \<times> delivery list)" where
  "dispatch s (Connect a) = Inr (connect s a, [])"
| "dispatch s (Join a d) = on_join s a d"
| "dispatch s (Stroke a d) = Inr (on_sound_stroke s a d)"
| "dispatch s (StateMsg a d) = Inr (on_sound_state s a d)"
| "dispatch s (Clear a) = Inr (on_canvas_clear s a)"
| "dispatch s (Disconnect a) = Inr (onclose s a)"

definition step :: "adapter \<Rightarrow> input \<Rightarrow> error + (adapter \<times> delivery list)" where
  "step s i =
     (case i of
        Connect a \<Rightarrow> (if sids s a = None then dispatch s i else Inr (s, []))
      | _ \<Rightarrow> (if sids s (subject i) = None then Inr (s, []) else dispatch s i))"

fun run :: "adapter \<Rightarrow> input list \<Rightarrow> error + (adapter \<times> delivery list)" where
  "run s [] = Inr (s, [])"
| "run s (i # is) =
     (case step s i of
        Inl e \<Rightarrow> Inl e
      | Inr (s', out) \<Rightarrow>
          (case run s' is of
             Inl e \<Rightarrow> Inl e
           | Inr (s'', out') \<Rightarrow> Inr (s'', out @ out')))"

text \<open>The registry a run from the empty registry ends in (the empty one if a listener threw).\<close>

definition after :: "input list \<Rightarrow> adapter" where
  "after is = (case run init is of Inl e \<Rightarrow> init | Inr (s, out) \<Rightarrow> s)"

section \<open>Leaving a room\<close>

text \<open>
  Modelled from the spec: the registry operation \<open>leave(sessionId, roomId)\<close>, which
  \<^verbatim>\<open>server.js\<close> never calls (a socket leaves its rooms only by closing). It removes
  the session from the room's member set and returns the new member count, 0 if the
  room becomes empty; a room with no members is absent from the registry; it is a no-op
  if the session was not a member. The session's own room set is updated with it, as
  the consistency of the two maps requires.
\<close>

definition leave :: "adapter \<Rightarrow> sid \<Rightarrow> jsval \<Rightarrow> adapter \<times> nat" where
  "leave s i r =
     (if i \<in> set (members s r) then
        (let ms = removeAll i (members s r)
         in (s\<lparr> rooms := (rooms s)(r := (if ms = [] then None else Some ms)),
                sids := (sids s)(i := map_option (removeAll r) (sids s i)) \<rparr>,
             length ms))
      else (s, roomSize s r))"

section \<open>Consistency of the two maps, and some concrete runs\<close>

text \<open>A socket is listed in a room exactly when the room is listed for the socket.\<close>

definition consistent :: "adapter \<Rightarrow> bool" where
  "consistent s = (\<forall>i r. (r \<in> set (socket_rooms s i)) = (i \<in> set (members s r)))"

text \<open>A connected socket has its own channel among its rooms.\<close>

definition enrolled :: "adapter \<Rightarrow> bool" where
  "enrolled s = (\<forall>a. sids s a = None \<or> JStr a \<in> set (socket_rooms s a))"

text \<open>The join message of the browser client: \<^verbatim>\<open>socket.emit('join', { room, username })\<close>.\<close>

definition join_msg :: "jsval \<Rightarrow> jsval \<Rightarrow> payload" where
  "join_msg room username = Obj [(''room'', room), (''username'', username)]"

definition marker_stroke :: payload where
  "marker_stroke =
     Obj [(''x'', JNum 10), (''y'', JNum 20), (''px'', JNum 5), (''py'', JNum 15),
          (''size'', JNum 30), (''hue'', JNum 200), (''sat'', JNum 80), (''light'', JNum 60),
          (''brushMode'', JStr ''marker'')]"

definition alice_alone :: "input list" where
  "alice_alone = [Connect ''A'', Join ''A'' (join_msg (JStr ''ABCDEF'') (JStr ''Alice''))]"


definition alice_bob :: "input list" where
  "alice_bob =
     [Connect ''A'', Connect ''B'',
      Join ''A'' (join_msg (JStr ''ABCDEF'') (JStr ''Alice'')),
      Join ''B'' (join_msg (JStr ''ABCDEF'') (JStr ''Bob''))]"

definition two_rooms :: "input list" where
  "two_rooms =
     [Connect ''A'', Connect ''B'',
      Join ''A'' (join_msg (JStr ''R1'') (JStr ''Alice'')),
      Join ''A'' (join_msg (JStr ''R2'') (JStr ''Alice'')),
      Join ''B'' (join_msg (JStr ''R2'') (JStr ''Bob''))]"


definition shared_channel :: "input list" where
  "shared_channel =
     [Connect ''A'', Connect ''B'',
      Join ''A'' (join_msg (JStr ''ABCDEF'') (JStr ''Alice'')),
      Join ''B'' (join_msg (JStr ''ABCDEF'') (JStr ''Bob'')),
      Join ''B'' (join_msg (JStr ''A'') (JStr ''Bob''))]"


section \<open>Facts about the registry\<close>

lemmas eval_defs =
  after_def step_def init_def connect_def addAll_def socket_rooms_def members_def set_add_def
  on_join_def join_msg_def get_prop_def roomSize_def optional_size_def or_zero_def
  real_rooms_def Let_def socket_to_def io_to_def socket_emit_def apply_room_def except_sids_def

lemma set_set_add [simp]: "set (set_add xs x) = insert x (set xs)"
  by (auto simp: set_add_def)

lemma roomSize_length: "roomSize s r = length (members s r)"
  by (simp add: roomSize_def optional_size_def or_zero_def members_def split: option.splits)

lemma members_addAll:
  "members (addAll s i r) r' = (if r' = r then set_add (members s r) i else members s r')"
  by (simp add: members_def addAll_def)

lemma socket_rooms_addAll:
  "socket_rooms (addAll s i r) j =
     (if j = i then set_add (socket_rooms s i) r else socket_rooms s j)"
  by (simp add: socket_rooms_def addAll_def)

lemma members_del_room:
  "members (del_room s r i) r' = (if r' = r then removeAll i (members s r) else members s r')"
  by (auto simp: members_def del_room_def split: option.splits)

lemma sids_del_room [simp]: "sids (del_room s r i) = sids s"
  by (simp add: del_room_def split: option.splits)

lemma sids_fold_del_room [simp]: "sids (fold (\<lambda>r t. del_room t r i) rs s) = sids s"
  by (induction rs arbitrary: s) simp_all

lemma members_fold_del_room:
  "members (fold (\<lambda>r t. del_room t r i) rs s) r' =
     (if r' \<in> set rs then removeAll i (members s r') else members s r')"
  by (induction rs arbitrary: s) (auto simp: members_del_room)

lemma members_delAll:
  "members (delAll s i) r =
     (if r \<in> set (socket_rooms s i) then removeAll i (members s r) else members s r)"
proof (cases "sids s i")
  case None
  then show ?thesis by (simp add: delAll_def socket_rooms_def)
next
  case (Some rs)
  then have "members (delAll s i) r = members (fold (\<lambda>r t. del_room t r i) rs s) r"
    by (simp add: delAll_def Let_def members_def)
  with Some show ?thesis by (simp add: members_fold_del_room socket_rooms_def)
qed

lemma sids_delAll: "sids (delAll s i) = (sids s)(i := None)"
  by (auto simp: delAll_def Let_def split: option.splits)

lemma socket_rooms_delAll:
  "socket_rooms (delAll s i) j = (if j = i then [] else socket_rooms s j)"
  by (simp add: socket_rooms_def sids_delAll)

lemma members_leave:
  "members (fst (leave s i r)) r' =
     (if r' = r then removeAll i (members s r) else members s r')"
  by (auto simp: leave_def Let_def members_def)

lemma socket_rooms_leave:
  "i \<in> set (members s r) \<Longrightarrow>
   socket_rooms (fst (leave s i r)) j =
     (if j = i then removeAll r (socket_rooms s i) else socket_rooms s j)"
  by (auto simp: leave_def Let_def socket_rooms_def split: option.splits)

lemma leave_not_member: "i \<notin> set (members s r) \<Longrightarrow> leave s i r = (s, roomSize s r)"
  by (simp add: leave_def)

subsection \<open>The rooms of a socket other than its own channel\<close>



lemma real_rooms_addAll:
  "real_rooms (addAll s a r) a =
     (if r = JStr a \<or> r \<in> set (socket_rooms s a) then real_rooms s a
      else real_rooms s a @ [r])"
  by (simp add: real_rooms_def socket_rooms_addAll set_add_def)

lemma real_rooms_addAll_other: "b \<noteq> a \<Longrightarrow> real_rooms (addAll s b r) a = real_rooms s a"
  by (simp add: real_rooms_def socket_rooms_addAll)

lemma real_rooms_connect: "real_rooms (connect s b) a = real_rooms s a"
  by (cases "b = a") (simp_all add: connect_def real_rooms_addAll real_rooms_addAll_other)

lemma real_rooms_delAll [simp]: "real_rooms (delAll s a) a = []"
  by (simp add: real_rooms_def socket_rooms_delAll)

lemma real_rooms_delAll_other: "real_rooms s a = [] \<Longrightarrow> real_rooms (delAll s b) a = []"
  by (simp add: real_rooms_def socket_rooms_delAll)



subsection \<open>Listeners\<close>

text \<open>Whatever the registry, closing a socket makes the disconnect listener emit nothing:
  the socket has no rooms left when the listener reads them.\<close>

lemma onclose_eq: "onclose s a = (delAll s a, [])"
  by (simp add: onclose_def on_disconnect_def)

lemma destructure_join_msg [simp]: "destructure (join_msg r u) = Inr (r, u)"
  by (simp add: join_msg_def get_prop_def)

text \<open>A join message whose payload can be destructured but lacks a truthy room or
  username is dropped.\<close>

lemma on_join_falsy:
  "destructure data = Inr (room, username) \<Longrightarrow> \<not> truthy room \<or> \<not> truthy username \<Longrightarrow>
   on_join s a data = Inr (s, [])"
  by (auto simp: on_join_def)

lemma on_join_state:
  "on_join s a d = Inr (s', out) \<Longrightarrow> s' = s \<or> (\<exists>r. s' = addAll s a r)"
  by (auto simp: on_join_def Let_def split: sum.splits if_splits)



lemma real_rooms_step:
  assumes "real_rooms s a = []" and "\<forall>d. i \<noteq> Join a d" and "step s i = Inr (s', out)"
  shows "real_rooms s' a = []"
proof (cases i)
  case (Connect b)
  with assms(1,3) show ?thesis
    by (auto simp: step_def real_rooms_connect split: if_splits)
next
  case (Join b d)
  with assms(2) have "b \<noteq> a" by auto
  from assms(3) Join have "s' = s \<or> (\<exists>r. s' = addAll s b r)"
    by (auto simp: step_def split: if_splits dest: on_join_state)
  with \<open>b \<noteq> a\<close> assms(1) show ?thesis by (auto simp: real_rooms_addAll_other)
next
  case (Stroke b d)
  with assms(1,3) show ?thesis
    by (auto simp: step_def on_sound_stroke_def split: if_splits)
next
  case (StateMsg b d)
  with assms(1,3) show ?thesis
    by (auto simp: step_def on_sound_state_def split: if_splits)
next
  case (Clear b)
  with assms(1,3) show ?thesis
    by (auto simp: step_def on_canvas_clear_def split: if_splits)
next
  case (Disconnect b)
  with assms(1,3) show ?thesis
    by (auto simp: step_def onclose_eq real_rooms_delAll_other split: if_splits)
qed

lemma real_rooms_run:
  assumes "real_rooms s a = []" and "\<forall>d. Join a d \<notin> set is" and "run s is = Inr (s', out)"
  shows "real_rooms s' a = []"
  using assms
proof (induction "is" arbitrary: s out)
  case Nil
  then show ?case by simp
next
  case (Cons i "is")
  from Cons.prems(3) obtain s1 out1 out2
    where st: "step s i = Inr (s1, out1)" and rn: "run s1 is = Inr (s', out2)"
    by (auto split: sum.splits)
  from Cons.prems(2) have "\<forall>d. i \<noteq> Join a d" by auto
  from real_rooms_step [OF Cons.prems(1) this st] have "real_rooms s1 a = []" .
  moreover from Cons.prems(2) have "\<forall>d. Join a d \<notin> set is" by auto
  ultimately show ?case using Cons.IH rn by blast
qed

subsection \<open>Consistency is kept by every operation\<close>

lemma consistent_init: "consistent init"
  by (simp add: consistent_def init_def socket_rooms_def members_def)

lemma consistent_addAll: "consistent s \<Longrightarrow> consistent (addAll s i r)"
  by (auto simp: consistent_def members_addAll socket_rooms_addAll)

lemma consistent_delAll: "consistent s \<Longrightarrow> consistent (delAll s i)"
  by (auto simp: consistent_def members_delAll socket_rooms_delAll)

lemma consistent_leave: "consistent s \<Longrightarrow> consistent (fst (leave s i r))"
proof (cases "i \<in> set (members s r)")
  case True
  assume "consistent s"
  with True show ?thesis
    by (auto simp: consistent_def members_leave socket_rooms_leave)
next
  case False
  assume "consistent s"
  with False show ?thesis by (simp add: leave_not_member)
qed

lemma consistent_connected:
  assumes "consistent s" and "i \<in> set (members s r)"
  shows "sids s i \<noteq> None"
proof
  assume "sids s i = None"
  then have "socket_rooms s i = []" by (simp add: socket_rooms_def)
  moreover from assms have "r \<in> set (socket_rooms s i)" by (simp add: consistent_def)
  ultimately show False by simp
qed

lemma consistent_step:
  "consistent s \<Longrightarrow> step s i = Inr (s', out) \<Longrightarrow> consistent s'"
  by (cases i)
     (auto simp: step_def connect_def on_sound_stroke_def on_sound_state_def
        on_canvas_clear_def onclose_eq consistent_addAll consistent_delAll
        split: if_splits dest!: on_join_state)

lemma consistent_run:
  "consistent s \<Longrightarrow> run s is = Inr (s', out) \<Longrightarrow> consistent s'"
proof (induction "is" arbitrary: s out)
  case Nil
  then show ?case by simp
next
  case (Cons i "is")
  from Cons.prems(2) obtain s1 out1 out2
    where st: "step s i = Inr (s1, out1)" and rn: "run s1 is = Inr (s', out2)"
    by (auto split: sum.splits)
  from consistent_step [OF Cons.prems(1) st] have "consistent s1" .
  from Cons.IH [OF this rn] show ?case .
qed

lemma consistent_after: "consistent (after is)"
  by (cases "run init is")
     (auto simp: after_def consistent_init dest: consistent_run [OF consistent_init])

subsection \<open>A connected socket stays in its own channel\<close>

lemma enrolled_init: "enrolled init"
  by (simp add: enrolled_def init_def)

lemma enrolledD:
  assumes "enrolled s" and "sids s a \<noteq> None"
  shows "JStr a \<in> set (socket_rooms s a)"
proof -
  from assms(1) have "sids s a = None \<or> JStr a \<in> set (socket_rooms s a)"
    unfolding enrolled_def by (rule spec)
  with assms(2) show ?thesis by auto
qed

lemma enrolledI:
  assumes "\<And>a. sids s a \<noteq> None \<Longrightarrow> JStr a \<in> set (socket_rooms s a)"
  shows "enrolled s"
  unfolding enrolled_def
proof
  fix a
  show "sids s a = None \<or> JStr a \<in> set (socket_rooms s a)"
  proof (cases "sids s a = None")
    case True
    then show ?thesis by simp
  next
    case False
    from assms [OF this] show ?thesis by simp
  qed
qed

lemma sids_addAll_other: "a \<noteq> i \<Longrightarrow> sids (addAll s i r) a = sids s a"
  by (simp add: addAll_def)

lemma enrolled_addAll:
  assumes "enrolled s" and "sids s i \<noteq> None \<or> r = JStr i"
  shows "enrolled (addAll s i r)"
proof (rule enrolledI)
  fix a assume c: "sids (addAll s i r) a \<noteq> None"
  show "JStr a \<in> set (socket_rooms (addAll s i r) a)"
  proof (cases "a = i")
    case True
    from assms(2) show ?thesis
    proof
      assume "sids s i \<noteq> None"
      from enrolledD [OF assms(1) this] True show ?thesis
        by (simp add: socket_rooms_addAll)
    next
      assume "r = JStr i"
      with True show ?thesis by (simp add: socket_rooms_addAll)
    qed
  next
    case False
    with c have "sids s a \<noteq> None" by (simp add: sids_addAll_other)
    from enrolledD [OF assms(1) this] False show ?thesis
      by (simp add: socket_rooms_addAll)
  qed
qed

lemma enrolled_delAll:
  assumes "enrolled s"
  shows "enrolled (delAll s i)"
proof (rule enrolledI)
  fix a assume c: "sids (delAll s i) a \<noteq> None"
  then have n: "a \<noteq> i" by (auto simp: sids_delAll)
  with c have "sids s a \<noteq> None" by (simp add: sids_delAll)
  from enrolledD [OF assms this] n show "JStr a \<in> set (socket_rooms (delAll s i) a)"
    by (simp add: socket_rooms_delAll)
qed

lemma enrolled_step:
  assumes "enrolled s" and "step s i = Inr (s', out)"
  shows "enrolled s'"
proof (cases i)
  case (Connect b)
  with assms show ?thesis
    by (auto simp: step_def connect_def enrolled_addAll split: if_splits)
next
  case (Join b d)
  with assms(2) have "s' = s \<or> (sids s b \<noteq> None \<and> (\<exists>r. s' = addAll s b r))"
    by (auto simp: step_def split: if_splits dest: on_join_state)
  with assms(1) show ?thesis by (auto simp: enrolled_addAll)
next
  case (Stroke b d)
  with assms show ?thesis by (auto simp: step_def on_sound_stroke_def split: if_splits)
next
  case (StateMsg b d)
  with assms show ?thesis by (auto simp: step_def on_sound_state_def split: if_splits)
next
  case (Clear b)
  with assms show ?thesis by (auto simp: step_def on_canvas_clear_def split: if_splits)
next
  case (Disconnect b)
  with assms show ?thesis by (auto simp: step_def onclose_eq enrolled_delAll split: if_splits)
qed

lemma enrolled_run:
  "enrolled s \<Longrightarrow> run s is = Inr (s', out) \<Longrightarrow> enrolled s'"
proof (induction "is" arbitrary: s out)
  case Nil
  then show ?case by simp
next
  case (Cons i "is")
  from Cons.prems(2) obtain s1 out1 out2
    where st: "step s i = Inr (s1, out1)" and rn: "run s1 is = Inr (s', out2)"
    by (auto split: sum.splits)
  from enrolled_step [OF Cons.prems(1) st] have "enrolled s1" .
  from Cons.IH [OF this rn] show ?case .
qed

text \<open>In a registry a run ends in, the two maps agree and every connected socket is a
  member of its own channel.\<close>

lemma reachable_consistent: "run init is = Inr (s, out) \<Longrightarrow> consistent s"
  by (rule consistent_run [OF consistent_init])

lemma reachable_own_channel:
  assumes "run init is = Inr (s, out)" and "sids s a \<noteq> None"
  shows "a \<in> set (members s (JStr a))"
proof -
  from assms(1) have "enrolled s" by (rule enrolled_run [OF enrolled_init])
  from enrolledD [OF this assms(2)] have "JStr a \<in> set (socket_rooms s a)" .
  moreover from assms(1) have "consistent s" by (rule reachable_consistent)
  ultimately show ?thesis by (simp add: consistent_def)
qed

lemma real_room_connected: "r \<in> set (real_rooms s a) \<Longrightarrow> sids s a \<noteq> None"
  by (cases "sids s a") (auto simp: real_rooms_def socket_rooms_def)

lemma wire_json_value: "json_value d \<Longrightarrow> wire d = d"
proof (cases d)
  case (Prim v)
  assume "json_value d"
  with Prim show ?thesis by (cases v) simp_all
next
  case (Obj kvs)
  assume "json_value d"
  with Obj show ?thesis by (simp add: list_all_iff)
qed

subsection \<open>Who a broadcast reaches\<close>

lemma set_socket_to:
  "set (socket_to s a r ev) =
     {(i, encode ev) | i. i \<in> set (members s r) \<and> i \<notin> set (members s (JStr a)) \<and> sids s i \<noteq> None}"
  by (auto simp: socket_to_def apply_room_def except_sids_def)


lemma fan_out_iff:
  "((b, ev') \<in> set (concat (map (\<lambda>room. socket_to s a room ev) (real_rooms s a)))) =
     (ev' = encode ev \<and> (\<exists>r \<in> set (real_rooms s a).
         b \<in> set (members s r) \<and> b \<notin> set (members s (JStr a)) \<and> sids s b \<noteq> None))"
  by (auto simp: set_socket_to)




subsection \<open>The concrete runs\<close>

lemma alice_alone_members: "members (after alice_alone) (JStr ''ABCDEF'') = [''A'']"
  by (simp add: alice_alone_def eval_defs)

lemma alice_alone_run:
  "run init alice_alone = Inr (after alice_alone, snd (projr (run init alice_alone)))"
  by (simp add: alice_alone_def eval_defs)


lemma alice_bob_members: "members (after alice_bob) (JStr ''ABCDEF'') = [''A'', ''B'']"
  by (simp add: alice_bob_def eval_defs)

lemma alice_bob_own_A: "members (after alice_bob) (JStr ''A'') = [''A'']"
  by (simp add: alice_bob_def eval_defs)


lemma alice_bob_rooms_A: "socket_rooms (after alice_bob) ''A'' = [JStr ''A'', JStr ''ABCDEF'']"
  by (simp add: alice_bob_def eval_defs)

lemma alice_bob_run:
  "run init alice_bob = Inr (after alice_bob, snd (projr (run init alice_bob)))"
  by (simp add: alice_bob_def eval_defs)

text \<open>Had the disconnect listener read the registry before the socket left its rooms, it
  would have sent the old count, to the leaving socket as well.\<close>

lemma on_disconnect_before_leaving:
  "snd (on_disconnect (after alice_bob) ''A'') = [(''A'', RoomCount 2), (''B'', RoomCount 2)]"
  by (simp add: on_disconnect_def alice_bob_def eval_defs)

section \<open>Stroke relay\<close>

text \<open>
  C1, as stated: a stroke sent by a session A of a real room R reaches, unmodified, every
  other session of R and no session outside R. Three runs show where it fails. With A in
  R1 and R2 and B in R2 only, B is outside R1 and receives the stroke, since the listener
  relays to every real room of the sender. With A and B in ABCDEF and B also in the room
  named by A's session id, B is in A's room and receives nothing, since the relay to a
  room skips every member of the sender's own channel. And a stroke sent with no payload
  reaches B as \<^verbatim>\<open>null\<close>.
\<close>

theorem stroke_relay_counterexample:
  "JStr ''R1'' \<in> set (real_rooms (after two_rooms) ''A'')
   \<and> ''B'' \<notin> set (members (after two_rooms) (JStr ''R1''))
   \<and> (''B'', SoundStroke marker_stroke)
        \<in> set (snd (on_sound_stroke (after two_rooms) ''A'' marker_stroke))
   \<and> JStr ''ABCDEF'' \<in> set (real_rooms (after shared_channel) ''A'')
   \<and> ''B'' \<in> set (members (after shared_channel) (JStr ''ABCDEF''))
   \<and> snd (on_sound_stroke (after shared_channel) ''A'' marker_stroke) = []
   \<and> snd (on_sound_stroke (after alice_bob) ''A'' (Prim JUndefined))
        = [(''B'', SoundStroke (Prim JNull))]"
  by (simp add: two_rooms_def shared_channel_def alice_bob_def marker_stroke_def
        on_sound_stroke_def eval_defs)

text \<open>
  C1, amended: in every registry a run of the relay ends in, let R be a real room of A.
  When A sends a stroke, the registry is unchanged; every session of R outside A's own
  channel is sent the payload as the wire carries it under the stroke event; everything
  that is sent is that event with that payload, goes to a session other than A, and goes
  to a member of some real room of A. A itself is always in its own channel, and the
  wire carries every JSON value unchanged, so only an absent payload is altered.
\<close>

theorem stroke_fanout:
  assumes "run init is = Inr (s, out)" and "r \<in> set (real_rooms s a)"
  shows "fst (on_sound_stroke s a d) = s
       \<and> (\<forall>b \<in> set (members s r). b \<notin> set (members s (JStr a)) \<longrightarrow>
             (b, SoundStroke (wire d)) \<in> set (snd (on_sound_stroke s a d)))
       \<and> (\<forall>b ev. (b, ev) \<in> set (snd (on_sound_stroke s a d)) \<longrightarrow>
             ev = SoundStroke (wire d) \<and> b \<noteq> a
             \<and> (\<exists>r' \<in> set (real_rooms s a). b \<in> set (members s r')))
       \<and> a \<in> set (members s (JStr a))
       \<and> (json_value d \<longrightarrow> wire d = d)"
proof -
  from assms(1) have c: "consistent s" by (rule reachable_consistent)
  from assms(2) have "sids s a \<noteq> None" by (rule real_room_connected)
  with assms(1) have o: "a \<in> set (members s (JStr a))" by (rule reachable_own_channel)
  have 1: "fst (on_sound_stroke s a d) = s" by (simp add: on_sound_stroke_def)
  have 2: "\<forall>b \<in> set (members s r). b \<notin> set (members s (JStr a)) \<longrightarrow>
             (b, SoundStroke (wire d)) \<in> set (snd (on_sound_stroke s a d))"
    unfolding on_sound_stroke_def snd_conv fan_out_iff
    using assms(2) consistent_connected [OF c] by auto
  have 3: "\<forall>b ev. (b, ev) \<in> set (snd (on_sound_stroke s a d)) \<longrightarrow>
             ev = SoundStroke (wire d) \<and> b \<noteq> a
             \<and> (\<exists>r' \<in> set (real_rooms s a). b \<in> set (members s r'))"
    unfolding on_sound_stroke_def snd_conv fan_out_iff using o by auto
  from 1 2 3 o wire_json_value show ?thesis by blast
qed

theorem stroke_fanout_witness:
  "JStr ''ABCDEF'' \<in> set (real_rooms (after alice_bob) ''A'')
   \<and> json_value marker_stroke
   \<and> (''B'', SoundStroke marker_stroke)
        \<in> set (snd (on_sound_stroke (after alice_bob) ''A'' marker_stroke))
   \<and> (''A'', SoundStroke marker_stroke)
        \<notin> set (snd (on_sound_stroke (after alice_bob) ''A'' marker_stroke))"
proof -
  have h: "JStr ''ABCDEF'' \<in> set (real_rooms (after alice_bob) ''A'')"
    by (simp add: real_rooms_def alice_bob_rooms_A)
  have j: "json_value marker_stroke" by (simp add: marker_stroke_def)
  have b: "''B'' \<in> set (members (after alice_bob) (JStr ''ABCDEF''))"
    "''B'' \<notin> set (members (after alice_bob) (JStr ''A''))"
    by (simp_all add: alice_bob_members alice_bob_own_A)
  have w: "wire marker_stroke = marker_stroke" by (simp add: marker_stroke_def)
  from stroke_fanout [OF alice_bob_run h, of marker_stroke] b
  have "(''B'', SoundStroke (wire marker_stroke))
           \<in> set (snd (on_sound_stroke (after alice_bob) ''A'' marker_stroke))"
    and "(''A'', SoundStroke marker_stroke)
           \<notin> set (snd (on_sound_stroke (after alice_bob) ''A'' marker_stroke))"
    by blast+
  with h j show ?thesis unfolding w by blast
qed

section \<open>Disconnect\<close>

text \<open>
  C2 says that after A disconnects from a room of two, B is sent the new count 1. The
  code on that run: A and B are both in room ABCDEF (size 2); closing A removes A from
  the room, which then holds B alone, and the disconnect listener emits nothing at all.
\<close>

theorem disconnect_emits_nothing:
  "roomSize (after alice_bob) (JStr ''ABCDEF'') = 2
   \<and> members (fst (onclose (after alice_bob) ''A'')) (JStr ''ABCDEF'') = [''B'']
   \<and> snd (onclose (after alice_bob) ''A'') = []"
  by (simp add: onclose_eq roomSize_length alice_bob_members members_delAll alice_bob_rooms_A)

section \<open>Join\<close>




text \<open>
  C4 says that a join message with room or username missing raises no exception. The
  code on a join message sent with no payload, or with \<^verbatim>\<open>null\<close>: both fields are missing,
  and the destructuring of line 18 throws before the guard of line 19 is reached.
\<close>

theorem join_without_payload_throws:
  "run init [Connect ''A'', Join ''A'' (Prim JUndefined)] = Inl TypeError
   \<and> run init [Connect ''A'', Join ''A'' (Prim JNull)] = Inl TypeError"
  by (simp add: step_def init_def connect_def addAll_def on_join_def)

section \<open>The rooms of a session\<close>




section \<open>Bidirectional consistency\<close>

text \<open>
  C6. Every registry a run of the relay ends in is consistent: a session is in a room's
  member list exactly when the room is in the session's room list. Each listener is one
  step from registry to registry, so nothing in between is observable; every step
  (connect, join, stroke, state, clear, disconnect) keeps a consistent registry
  consistent, and so does leave.
\<close>

theorem bidirectional_consistency:
  "(run init is = Inr (s, out) \<longrightarrow> consistent s)
   \<and> (consistent t \<longrightarrow>
        (step t i = Inr (t', out') \<longrightarrow> consistent t') \<and> consistent (fst (leave t a r)))"
  using consistent_run [OF consistent_init] consistent_step consistent_leave by blast

theorem bidirectional_consistency_witness:
  "consistent (after alice_bob)
   \<and> consistent (fst (onclose (after alice_bob) ''A''))
   \<and> consistent (fst (leave (after alice_bob) ''B'' (JStr ''ABCDEF'')))"
proof -
  have c: "consistent (after alice_bob)"
    using bidirectional_consistency [of alice_bob "after alice_bob" _ init] alice_bob_run
    by blast
  have "sids (after alice_bob) ''A'' \<noteq> None" by (simp add: alice_bob_def eval_defs)
  then have st: "step (after alice_bob) (Disconnect ''A'')
            = Inr (fst (onclose (after alice_bob) ''A''), snd (onclose (after alice_bob) ''A''))"
    by (auto simp: step_def)
  from bidirectional_consistency [of "[]" init "[]" "after alice_bob" "Disconnect ''A''"
        "fst (onclose (after alice_bob) ''A'')" "snd (onclose (after alice_bob) ''A'')"
        "''B''" "JStr ''ABCDEF''"]
    c st show ?thesis by blast
qed

section \<open>Join followed by leave\<close>

text \<open>
  C7, as stated: for every session and room, join followed by leave brings the member
  count back to its value before the join. It fails when the session is already a
  member: A alone in ABCDEF gives count 1, the repeated join changes nothing, and the
  leave returns 0.
\<close>

theorem join_then_leave_counterexample:
  "roomSize (after alice_alone) (JStr ''ABCDEF'') = 1
   \<and> snd (leave (addAll (after alice_alone) ''A'' (JStr ''ABCDEF'')) ''A'' (JStr ''ABCDEF'')) = 0"
  by (simp add: roomSize_length leave_def Let_def members_addAll set_add_def alice_alone_members)

text \<open>
  C7, amended: for a session that is not yet a member of the room, join followed by
  leave returns the count the room had before the join and leaves the room with that
  count; afterwards the room is not among the session's rooms. Leave by a non-member
  changes nothing and returns the current count. When the leaving session was the only
  member, leave returns 0 and the room is absent from the registry.
\<close>

theorem join_then_leave:
  assumes "i \<notin> set (members s r)"
  shows "snd (leave (addAll s i r) i r) = roomSize s r
       \<and> roomSize (fst (leave (addAll s i r) i r)) r = roomSize s r
       \<and> r \<notin> set (socket_rooms (fst (leave (addAll s i r) i r)) i)
       \<and> r \<notin> set (real_rooms (fst (leave (addAll s i r) i r)) i)
       \<and> leave s i r = (s, roomSize s r)
       \<and> (members s r = [] \<longrightarrow>
            snd (leave (addAll s i r) i r) = 0 \<and> rooms (fst (leave (addAll s i r) i r)) r = None)"
proof -
  have m: "members (addAll s i r) r = members s r @ [i]"
    using assms by (simp add: members_addAll set_add_def)
  have n: "snd (leave (addAll s i r) i r) = length (members s r)"
    using assms by (simp add: leave_def Let_def m removeAll_id)
  have e: "members s r = [] \<Longrightarrow> rooms (fst (leave (addAll s i r) i r)) r = None"
    by (simp add: leave_def Let_def m)
  have sr: "r \<notin> set (socket_rooms (fst (leave (addAll s i r) i r)) i)"
    by (simp add: socket_rooms_leave m socket_rooms_addAll)
  show ?thesis
    using assms n e sr
    by (simp add: roomSize_length members_leave m removeAll_id leave_not_member real_rooms_def)
qed

theorem join_then_leave_witness:
  "''B'' \<notin> set (members (after alice_alone) (JStr ''ABCDEF''))
   \<and> roomSize (after alice_alone) (JStr ''ABCDEF'') = 1
   \<and> snd (leave (addAll (after alice_alone) ''B'' (JStr ''ABCDEF'')) ''B'' (JStr ''ABCDEF'')) = 1
   \<and> leave (after alice_alone) ''B'' (JStr ''ABCDEF'') = (after alice_alone, 1)"
proof -
  have h: "''B'' \<notin> set (members (after alice_alone) (JStr ''ABCDEF''))"
    by (simp add: alice_alone_members)
  from join_then_leave [OF h] h alice_alone_members show ?thesis
    by (simp add: roomSize_length)
qed

section \<open>A session in no real room\<close>

text \<open>
  C8. For a session that is in no real room, a stroke, state or clear message is
  answered by no outbound message, no change of the registry and no error. A session
  that never sent a join message is in no real room, whatever the other sessions did.
\<close>

theorem no_real_room_silent:
  "(real_rooms s a = [] \<longrightarrow>
      step s (Stroke a d) = Inr (s, []) \<and> step s (StateMsg a d) = Inr (s, [])
      \<and> step s (Clear a) = Inr (s, []))
   \<and> ((\<forall>d. Join a d \<notin> set is) \<and> run init is = Inr (t, out) \<longrightarrow> real_rooms t a = [])"
proof (intro conjI impI)
  assume "real_rooms s a = []"
  then show "step s (Stroke a d) = Inr (s, [])" and "step s (StateMsg a d) = Inr (s, [])"
    and "step s (Clear a) = Inr (s, [])"
    by (simp_all add: step_def on_sound_stroke_def on_sound_state_def on_canvas_clear_def)
next
  assume "(\<forall>d. Join a d \<notin> set is) \<and> run init is = Inr (t, out)"
  moreover have "real_rooms init a = []" by (simp add: init_def real_rooms_def socket_rooms_def)
  ultimately show "real_rooms t a = []" using real_rooms_run by blast
qed

theorem no_real_room_silent_witness:
  "real_rooms (after alice_alone) ''C'' = []
   \<and> real_rooms (connect (after alice_alone) ''C'') ''C'' = []
   \<and> step (connect (after alice_alone) ''C'') (Stroke ''C'' marker_stroke)
       = Inr (connect (after alice_alone) ''C'', [])
   \<and> step (connect (after alice_alone) ''C'') (StateMsg ''C'' marker_stroke)
       = Inr (connect (after alice_alone) ''C'', [])
   \<and> step (connect (after alice_alone) ''C'') (Clear ''C'')
       = Inr (connect (after alice_alone) ''C'', [])"
proof -
  have n: "\<forall>d. Join ''C'' d \<notin> set alice_alone" by (simp add: alice_alone_def)
  from no_real_room_silent [of "after alice_alone" "''C''" marker_stroke alice_alone
        "after alice_alone"] alice_alone_run n
  have a: "real_rooms (after alice_alone) ''C'' = []" by blast
  then have b: "real_rooms (connect (after alice_alone) ''C'') ''C'' = []"
    by (simp add: real_rooms_connect)
  from no_real_room_silent [of "connect (after alice_alone) ''C''" "''C''" marker_stroke "[]" init]
    a b
  show ?thesis by blast
qed

section \<open>Joining a second room\<close>




section \<open>Member count\<close>

text \<open>
  C10. The member count is total: for a room absent from the registry the size lookup
  of the join and disconnect listeners yields 0, not an error or an undefined value.
\<close>

theorem roomSize_absent:
  "rooms s r = None \<Longrightarrow> roomSize s r = 0"
  by (simp add: roomSize_def optional_size_def or_zero_def)

theorem roomSize_absent_witness:
  "rooms init (JStr ''ABCDEF'') = None \<and> roomSize init (JStr ''ABCDEF'') = 0"
  using roomSize_absent [of init "JStr ''ABCDEF''"] by (simp add: init_def)

end
